theory Spec2Isabelle
  imports Complex_Main "HOL-Library.Monad_Syntax"
begin

section \<open>Errors raised by the program\<close>

text \<open>
  Every exception the modelled code can raise is a value of this type:
  \<open>Exception msg\<close> is Python's generic \<open>Exception(msg)\<close>, \<open>ApiError message code\<close> is the
  dataclass of \<open>api.py\<close>, the others are the built-in or library exceptions of the same name
  (\<open>ValidationError\<close> is pydantic's, \<open>HTTPError\<close> is what \<open>raise_for_status\<close> raises,
  \<open>ValueError\<close> stands for \<open>calendar.IllegalMonthError\<close> too).
\<close>

datatype error =
    Exception string
  | AssertionError
  | OverflowError
  | ZeroDivisionError
  | ApiError string int
  | ValidationError
  | HTTPError
  | ValueError

section \<open>The incremental store: \<open>df_store\<close>\<close>

text \<open>
  A pandas data frame indexed by the key field is a list of rows \<open>(index, columns)\<close>: row
  order and repeated index values are both observable in pandas, so the model keeps them.
  The feather file is \<open>None\<close> when \<open>pathlib.Path(fname).exists()\<close> is false and \<open>Some rows\<close>
  otherwise.
\<close>

type_synonym ('k, 'c) dataframe = "('k \<times> 'c) list"

text \<open>\<open>pd.DataFrame.from_records(data, index=key_field)\<close> on the dumped items.\<close>

definition from_records :: "('a \<Rightarrow> 'k) \<Rightarrow> ('a \<Rightarrow> 'c) \<Rightarrow> 'a list \<Rightarrow> ('k, 'c) dataframe" where
  "from_records key_field columns data = map (\<lambda>item. (key_field item, columns item)) data"

text \<open>\<open>pd.concat([a, b])\<close>: the rows of \<open>a\<close> followed by the rows of \<open>b\<close>.\<close>

definition concat_frames :: "('k, 'c) dataframe \<Rightarrow> ('k, 'c) dataframe \<Rightarrow> ('k, 'c) dataframe" where
  "concat_frames a b = a @ b"

text \<open>
  \<open>df[~df.index.duplicated(keep="last")]\<close>: \<open>duplicated(keep="last")\<close> marks every row whose
  index value occurs again further down, so the filter keeps, for each index value, its last
  row, in the original order.
\<close>

fun drop_duplicated_keep_last :: "('k, 'c) dataframe \<Rightarrow> ('k, 'c) dataframe" where
  "drop_duplicated_keep_last [] = []"
| "drop_duplicated_keep_last (r # rs) =
     (if fst r \<in> fst ` set rs then drop_duplicated_keep_last rs
      else r # drop_duplicated_keep_last rs)"

text \<open>
  \<open>df_store(fname, items, key_field)\<close>. The file named \<open>fname\<close> is passed in as its content
  and handed back as the second component; the first component is the returned frame or the
  exception. \<open>df = None\<close> is the inner \<open>option\<close>.
\<close>

definition df_store ::
  "('a \<Rightarrow> 'k) \<Rightarrow> ('a \<Rightarrow> 'c) \<Rightarrow> ('k, 'c) dataframe option \<Rightarrow> 'a list
     \<Rightarrow> (error + ('k, 'c) dataframe) \<times> ('k, 'c) dataframe option" where
  "df_store key_field columns stored items =
     (let data = items;
          df0 = (if data \<noteq> [] then Some (from_records key_field columns data) else None);
          df1 = (case stored of
                   Some loaded \<Rightarrow>
                     (case df0 of
                        Some df \<Rightarrow> Some (drop_duplicated_keep_last (concat_frames df loaded))
                      | None \<Rightarrow> Some loaded)
                 | None \<Rightarrow> df0)
      in case df1 of
           None \<Rightarrow> (Inl (Exception ''Dataframe is empty''), stored)
         | Some df \<Rightarrow> (Inr df, Some df))"

section \<open>The response envelope: \<open>json_response\<close>\<close>

text \<open>
  A decoded JSON body is a Python \<open>dict\<close>: a map from keys to values of an arbitrary value
  type \<open>'j\<close> (JSON \<open>null\<close> is a value of \<open>'j\<close>, so a key bound to \<open>null\<close> is present).

  \<open>parse_obj_as(ApiError, data)\<close> validates the body against the dataclass
  \<open>ApiError(message: str, code: int = Field(alias="error"))\<close>: both fields are required,
  \<open>message\<close> is read from the key \<open>message\<close> and \<open>code\<close> from its alias \<open>error\<close>. How pydantic
  coerces one value to \<open>str\<close> or \<open>int\<close> is left as the parameters \<open>as_str\<close> and \<open>as_int\<close>
  (\<open>None\<close> when it rejects the value); \<open>None\<close> as the result is pydantic raising
  \<open>ValidationError\<close>.
\<close>

definition parse_obj_as_ApiError ::
  "('j \<Rightarrow> string option) \<Rightarrow> ('j \<Rightarrow> int option) \<Rightarrow> (string \<rightharpoonup> 'j) \<Rightarrow> (string \<times> int) option" where
  "parse_obj_as_ApiError as_str as_int data =
     (case data ''message'' of
        None \<Rightarrow> None
      | Some m \<Rightarrow>
          (case as_str m of
             None \<Rightarrow> None
           | Some message \<Rightarrow>
               (case data ''error'' of
                  None \<Rightarrow> None
                | Some c \<Rightarrow>
                    (case as_int c of
                       None \<Rightarrow> None
                     | Some code \<Rightarrow> Some (message, code)))))"

definition json_response ::
  "('j \<Rightarrow> string option) \<Rightarrow> ('j \<Rightarrow> int option) \<Rightarrow> (string \<rightharpoonup> 'j) \<Rightarrow> error + 'j" where
  "json_response as_str as_int data =
     (case data ''response'' of
        Some payload \<Rightarrow> Inr payload
      | None \<Rightarrow>
          (case data ''error'' of
             Some _ \<Rightarrow>
               (case parse_obj_as_ApiError as_str as_int data of
                  Some (message, code) \<Rightarrow> Inl (ApiError message code)
                | None \<Rightarrow> Inl ValidationError)
           | None \<Rightarrow> Inl (Exception ''unexpected response'')))"

text \<open>A small JSON value type for concrete bodies.\<close>

datatype json = JNull | JBool bool | JInt int | JStr string | JList "json list"

fun json_str :: "json \<Rightarrow> string option" where
  "json_str (JStr s) = Some s"
| "json_str _ = None"

fun json_int :: "json \<Rightarrow> int option" where
  "json_int (JInt i) = Some i"
| "json_int _ = None"

section \<open>Pages and the paginated fetch: \<open>iter_transactions\<close>\<close>

text \<open>
  \<open>PageInfo\<close> and \<open>Page\<close> of \<open>api.py\<close>. The field \<open>page\<close> of \<open>Page\<close> is called \<open>page_info\<close>
  here, since \<open>PageInfo\<close> has a field \<open>page\<close> of its own.
\<close>

record PageInfo =
  count :: int
  page :: int
  per_page :: int

record 'd Page =
  data :: 'd
  page_info :: PageInfo

text \<open>
  \<open>iter_transactions\<close> is a generator over \<open>get_transactions_page\<close>. The page request is
  the parameter \<open>get_page page per_page\<close>, a transition on a state \<open>'s\<close> (the remote side,
  a fake source's script, a call log) that returns the parsed page or the exception the request
  raised. The model gives what a consumer that drains the generator observes: the items
  yielded, in order, then the exception that ended the iteration (\<open>None\<close> for a normal end),
  and the state left behind. The \<open>while\<close> loop may run forever (a source whose every page is
  full), so the loop is a partial function: \<open>None\<close> is a loop that never ends.

  The loop variables \<open>per_page\<close> and \<open>count\<close> of the source are \<open>per_page'\<close> and \<open>count'\<close>.
\<close>

partial_function (option) iter_transactions_loop ::
  "(int \<Rightarrow> int \<Rightarrow> 's \<Rightarrow> (error + 'a list Page) \<times> 's) \<Rightarrow> int \<Rightarrow> int \<Rightarrow> int \<Rightarrow> 's
     \<Rightarrow> ('a list \<times> error option \<times> 's) option" where
  [code]: "iter_transactions_loop get_page from_page per_page' count' s =
     (if per_page' = count' then
        (case get_page from_page per_page' s of
           (Inl e, s') \<Rightarrow> Some ([], Some e, s')
         | (Inr d, s') \<Rightarrow>
             Option.bind
               (iter_transactions_loop get_page
                  (page (page_info d) + 1) (per_page (page_info d)) (count (page_info d)) s')
               (\<lambda>(items, raised, s''). Some (data d @ items, raised, s'')))
      else Some ([], None, s))"

definition iter_transactions ::
  "(int \<Rightarrow> int \<Rightarrow> 's \<Rightarrow> (error + 'a list Page) \<times> 's) \<Rightarrow> int \<Rightarrow> int \<Rightarrow> 's
     \<Rightarrow> ('a list \<times> error option \<times> 's) option" where
  "iter_transactions get_page from_page per_page' s =
     (let count' = per_page' in iter_transactions_loop get_page from_page per_page' count' s)"

text \<open>
  The run the pagination rule describes, for comparison with the loop: \<open>served get_page p n s
  pages s'\<close> holds when, asked for page \<open>p\<close> with size \<open>n\<close> in state \<open>s\<close>, the source serves
  the non-empty list \<open>pages\<close> one request after the other and ends in \<open>s'\<close>, every page but
  the last having \<open>count = per_page\<close>, the last one \<open>count \<noteq> per_page\<close>, and every request
  after the first asking for the page after the one just echoed, with the echoed size.
\<close>

fun served ::
  "(int \<Rightarrow> int \<Rightarrow> 's \<Rightarrow> (error + 'a list Page) \<times> 's) \<Rightarrow> int \<Rightarrow> int \<Rightarrow> 's
     \<Rightarrow> 'a list Page list \<Rightarrow> 's \<Rightarrow> bool" where
  "served get_page p n s [] s' = False"
| "served get_page p n s [d] s' =
     (get_page p n s = (Inr d, s') \<and> count (page_info d) \<noteq> per_page (page_info d))"
| "served get_page p n s (d # d' # ds) s' =
     (case get_page p n s of
        (Inl e, s1) \<Rightarrow> False
      | (Inr d0, s1) \<Rightarrow>
          d0 = d \<and> count (page_info d) = per_page (page_info d)
          \<and> served get_page (page (page_info d) + 1) (per_page (page_info d)) s1 (d' # ds) s')"

text \<open>
  Two fake page sources; the state counts the requests made. \<open>oversized_source\<close> reports
  \<open>count = 3\<close> with \<open>per_page = 2\<close> on every page. \<open>short_last_source\<close> serves two full pages
  and a short third page.
\<close>

definition oversized_source :: "int \<Rightarrow> int \<Rightarrow> nat \<Rightarrow> (error + int list Page) \<times> nat" where
  "oversized_source p n s =
     (Inr \<lparr>data = [p], page_info = \<lparr>count = 3, page = p, per_page = 2\<rparr>\<rparr>, Suc s)"

definition short_last_source :: "int \<Rightarrow> int \<Rightarrow> nat \<Rightarrow> (error + int list Page) \<times> nat" where
  "short_last_source p n s =
     (Inr \<lparr>data = (if p < 3 then [10 * p, 10 * p + 1] else [10 * p]),
           page_info = \<lparr>count = (if p < 3 then 2 else 1), page = p, per_page = 2\<rparr>\<rparr>, Suc s)"

section \<open>Dates and times\<close>

text \<open>
  \<open>datetime.date\<close> is a civil date: year, month, day. Python only ever holds valid dates, with
  \<open>1 \<le> year \<le> 9999\<close> (\<open>valid_date\<close>); arithmetic that leaves this range raises
  \<open>OverflowError\<close>. \<open>timedelta\<close> values are whole numbers of days here, since the program
  only forms them from date differences and from \<open>timedelta(days=n)\<close>.
\<close>

datatype date = Date (year: int) (month: int) (day: int)

text \<open>\<open>calendar.isleap\<close> and \<open>calendar.mdays\<close>.\<close>

definition isleap :: "int \<Rightarrow> bool" where
  "isleap y = (y mod 4 = 0 \<and> (y mod 100 \<noteq> 0 \<or> y mod 400 = 0))"

definition mdays :: "int list" where
  "mdays = [0, 31, 28, 31, 30, 31, 30, 31, 31, 30, 31, 30, 31]"

text \<open>
  \<open>calendar.monthrange(year, month)[1]\<close>, the number of days of the month; \<open>monthrange\<close>
  raises \<open>IllegalMonthError\<close> (a \<open>ValueError\<close>) for a month outside 1..12. The first component
  of the pair (the weekday of the first day) is not used by the program.
\<close>

definition monthrange_ndays :: "int \<Rightarrow> int \<Rightarrow> error + int" where
  "monthrange_ndays y m =
     (if \<not> (1 \<le> m \<and> m \<le> 12) then Inl ValueError
      else Inr (mdays ! nat m + (if m = 2 \<and> isleap y then 1 else 0)))"

definition days_in_month :: "int \<Rightarrow> int \<Rightarrow> int" where
  "days_in_month y m = mdays ! nat m + (if m = 2 \<and> isleap y then 1 else 0)"

definition valid_date :: "date \<Rightarrow> bool" where
  "valid_date d = (1 \<le> year d \<and> year d \<le> 9999 \<and> 1 \<le> month d \<and> month d \<le> 12
                   \<and> 1 \<le> day d \<and> day d \<le> days_in_month (year d) (month d))"

text \<open>\<open>a < b\<close> on dates compares \<open>(year, month, day)\<close> lexicographically.\<close>

definition date_less :: "date \<Rightarrow> date \<Rightarrow> bool" where
  "date_less a b =
     (year a < year b \<or> (year a = year b \<and>
        (month a < month b \<or> (month a = month b \<and> day a < day b))))"

text \<open>\<open>d.replace(day=1)\<close>: day 1 exists in every month, so no \<open>ValueError\<close> here.\<close>

definition replace_day_1 :: "date \<Rightarrow> date" where
  "replace_day_1 d = Date (year d) (month d) 1"

text \<open>The day after and the day before a date, in the proleptic Gregorian calendar.\<close>

definition next_day :: "date \<Rightarrow> date" where
  "next_day d =
     (if day d < days_in_month (year d) (month d) then Date (year d) (month d) (day d + 1)
      else if month d < 12 then Date (year d) (month d + 1) 1
      else Date (year d + 1) 1 1)"

definition prev_day :: "date \<Rightarrow> date" where
  "prev_day d =
     (if 1 < day d then Date (year d) (month d) (day d - 1)
      else if 1 < month d then Date (year d) (month d - 1) (days_in_month (year d) (month d - 1))
      else Date (year d - 1) 12 31)"

fun days_later :: "nat \<Rightarrow> date \<Rightarrow> date" where
  "days_later 0 d = d"
| "days_later (Suc n) d = days_later n (next_day d)"

fun days_earlier :: "nat \<Rightarrow> date \<Rightarrow> date" where
  "days_earlier 0 d = d"
| "days_earlier (Suc n) d = days_earlier n (prev_day d)"

text \<open>
  \<open>d + timedelta(days=n)\<close>: the date \<open>n\<close> days later (earlier for negative \<open>n\<close>), or
  \<open>OverflowError\<close> when that date is outside years 1..9999. \<open>d - timedelta(days=n)\<close> is
  \<open>d + timedelta(days=-n)\<close>.
\<close>

definition date_add :: "date \<Rightarrow> int \<Rightarrow> error + date" where
  "date_add d n =
     (let r = (if 0 \<le> n then days_later (nat n) d else days_earlier (nat (- n)) d)
      in if 1 \<le> year r \<and> year r \<le> 9999 then Inr r else Inl OverflowError)"

definition date_sub_timedelta :: "date \<Rightarrow> int \<Rightarrow> error + date" where
  "date_sub_timedelta d n = date_add d (- n)"

text \<open>
  \<open>a - b\<close> on two dates is the \<open>timedelta\<close> of \<open>a.toordinal() - b.toordinal()\<close> days, with
  the proleptic Gregorian ordinal of \<open>datetime\<close> (\<open>_ymd2ord\<close>).
\<close>

definition days_before_year :: "int \<Rightarrow> int" where
  "days_before_year y = (let y1 = y - 1 in y1 * 365 + y1 div 4 - y1 div 100 + y1 div 400)"

definition days_before_month :: "int \<Rightarrow> int \<Rightarrow> int" where
  "days_before_month y m =
     [0, 0, 31, 59, 90, 120, 151, 181, 212, 243, 273, 304, 334] ! nat m
       + (if 2 < m \<and> isleap y then 1 else 0)"

definition toordinal :: "date \<Rightarrow> int" where
  "toordinal d = days_before_year (year d) + days_before_month (year d) (month d) + day d"

definition date_diff :: "date \<Rightarrow> date \<Rightarrow> int" where
  "date_diff a b = toordinal a - toordinal b"

text \<open>
  A month and a day that exist in the calendar, whatever the year: what the day-by-day
  stepping above preserves also outside the years 1..9999.
\<close>

definition in_calendar :: "date \<Rightarrow> bool" where
  "in_calendar d = (1 \<le> month d \<and> month d \<le> 12
                    \<and> 1 \<le> day d \<and> day d \<le> days_in_month (year d) (month d))"

text \<open>
  \<open>datetime.datetime\<close> (timezone-naive): a date and the microseconds elapsed since midnight.
  Comparison is lexicographic. \<open>to_dtime\<close> accepts a date or a datetime, as its \<open>isinstance\<close>
  chain does; its last branch (\<open>unsupported type\<close>) is not reachable on these two types.
\<close>

datatype datetime = DateTime (date_of: date) (microseconds: nat)

definition datetime_less :: "datetime \<Rightarrow> datetime \<Rightarrow> bool" where
  "datetime_less a b =
     (date_less (date_of a) (date_of b)
      \<or> (date_of a = date_of b \<and> microseconds a < microseconds b))"

definition datetime_ge :: "datetime \<Rightarrow> datetime \<Rightarrow> bool" where
  "datetime_ge a b = (\<not> datetime_less a b)"

datatype date_or_datetime = ADate date | ADatetime datetime

fun to_dtime :: "date_or_datetime \<Rightarrow> datetime" where
  "to_dtime (ADatetime t) = t"
| "to_dtime (ADate d) = DateTime d 0"

section \<open>Records, frames and the world of the command line tool\<close>

text \<open>
  \<open>Transaction\<close> and \<open>ClientInfo\<close> of \<open>api.py\<close>, with their canonical field names. Both
  classes call their key \<open>id\<close>; it is \<open>tx_id\<close> and \<open>cl_id\<close> here.
\<close>

record Transaction =
  client_id :: int
  tx_id :: int
  closed_at :: datetime

record ClientInfo =
  cl_id :: int
  activated_at :: datetime

text \<open>
  The frame of transactions is indexed by \<open>id\<close> and has the columns \<open>client_id\<close> and
  \<open>closed_at\<close>; the frame of clients is indexed by \<open>id\<close> and has the column \<open>activated_at\<close>.
\<close>

type_synonym tx_frame = "(int, int \<times> datetime) dataframe"
type_synonym cl_frame = "(int, datetime) dataframe"

definition tx_columns :: "Transaction \<Rightarrow> int \<times> datetime" where
  "tx_columns t = (client_id t, closed_at t)"

definition col_client_id :: "int \<times> int \<times> datetime \<Rightarrow> int" where
  "col_client_id row = fst (snd row)"

definition col_closed_at :: "int \<times> int \<times> datetime \<Rightarrow> datetime" where
  "col_closed_at row = snd (snd row)"

definition col_activated_at :: "int \<times> datetime \<Rightarrow> datetime" where
  "col_activated_at row = snd row"

text \<open>
  What the tool prints, one value per \<open>print\<close> call. The rate is printed by the source as
  \<open>f"CRR: {CRR * 100:.2f}%"\<close> from a float; the model keeps the exact quotient and leaves the
  rounding of the float division and of the format out.
\<close>

datatype out_line =
    RetrieveTransactions
  | RetrieveClients
  | PeriodLine date date
  | ClientsAtPeriodStart nat
  | ClientsLeft nat
  | ClientsNew nat
  | TransactionsInPeriod nat
  | NoClientsSkipPeriod
  | CRRLine rat
  | MonthHeader int int
  | BlankLine

text \<open>
  The remote service answers the two calls the tool makes; each answer is the parsed payload
  or the exception that \<open>get_json_request\<close> or \<open>parse_obj_as\<close> raised, and the service may
  change its own state \<open>'r\<close>. The first argument is the token.
\<close>

record 'r service =
  getTransactions ::
    "string \<Rightarrow> date_or_datetime \<Rightarrow> date_or_datetime \<Rightarrow> int \<Rightarrow> int \<Rightarrow> 'r
       \<Rightarrow> (error + Transaction list Page) \<times> 'r"
  getClients :: "string \<Rightarrow> 'r \<Rightarrow> (error + ClientInfo list) \<times> 'r"

datatype api_call =
    GetTransactions string date_or_datetime date_or_datetime int int
  | GetClients string

text \<open>
  Everything the tool can change: the two feather files, the remote side, the requests sent
  so far, and the lines printed so far.
\<close>

record 'r world =
  transactions_feater :: "tx_frame option"
  clients_feater :: "cl_frame option"
  remote :: 'r
  api_calls :: "api_call list"
  stdout :: "out_line list"

definition print :: "out_line \<Rightarrow> 'r world \<Rightarrow> 'r world" where
  "print line w = w\<lparr>stdout := stdout w @ [line]\<rparr>"

definition get_transactions_page ::
  "'r service \<Rightarrow> string \<Rightarrow> date_or_datetime \<Rightarrow> date_or_datetime \<Rightarrow> int \<Rightarrow> int \<Rightarrow> 'r world
     \<Rightarrow> (error + Transaction list Page) \<times> 'r world" where
  "get_transactions_page api token date_from date_to p n w =
     (case getTransactions api token date_from date_to p n (remote w) of
        (r, remote') \<Rightarrow>
          (r, w\<lparr>remote := remote',
                api_calls := api_calls w @ [GetTransactions token date_from date_to p n]\<rparr>))"

definition get_clients ::
  "'r service \<Rightarrow> string \<Rightarrow> 'r world \<Rightarrow> (error + ClientInfo list) \<times> 'r world" where
  "get_clients api token w =
     (case getClients api token (remote w) of
        (r, remote') \<Rightarrow> (r, w\<lparr>remote := remote', api_calls := api_calls w @ [GetClients token]\<rparr>))"

section \<open>Refreshing the stores\<close>

definition update_transactions ::
  "Transaction list \<Rightarrow> 'r world \<Rightarrow> (error + tx_frame) \<times> 'r world" where
  "update_transactions txs w =
     (case df_store tx_id tx_columns (transactions_feater w) txs of
        (r, f) \<Rightarrow> (r, w\<lparr>transactions_feater := f\<rparr>))"

text \<open>
  \<open>df_store\<close> drains the generator in its first line, so an exception of a page request
  leaves \<open>df_store\<close> before anything is merged or written.
\<close>

definition unload_transactions_for_date_range ::
  "'r service \<Rightarrow> string \<Rightarrow> date_or_datetime \<Rightarrow> date_or_datetime \<Rightarrow> 'r world
     \<Rightarrow> ((error + tx_frame) \<times> 'r world) option" where
  "unload_transactions_for_date_range api token date_from date_to w =
     (case iter_transactions (get_transactions_page api token date_from date_to) 1 500 w of
        None \<Rightarrow> None
      | Some (txs, Some e, w') \<Rightarrow> Some (Inl e, w')
      | Some (txs, None, w') \<Rightarrow> Some (update_transactions txs w'))"

definition update_clients ::
  "ClientInfo list \<Rightarrow> 'r world \<Rightarrow> (error + cl_frame) \<times> 'r world" where
  "update_clients cls w =
     (case df_store cl_id activated_at (clients_feater w) cls of
        (r, f) \<Rightarrow> (r, w\<lparr>clients_feater := f\<rparr>))"

definition unload_clients ::
  "'r service \<Rightarrow> string \<Rightarrow> 'r world \<Rightarrow> (error + cl_frame) \<times> 'r world" where
  "unload_clients api token w =
     (case get_clients api token w of
        (Inl e, w') \<Rightarrow> (Inl e, w')
      | (Inr clients, w') \<Rightarrow> update_clients clients w')"

section \<open>The retention calculator: \<open>command_ccr\<close>\<close>

text \<open>\<open>Series.unique()\<close>: the distinct values in order of first appearance.\<close>

definition unique :: "'a list \<Rightarrow> 'a list" where
  "unique xs = rev (remdups (rev xs))"

text \<open>\<open>a / b\<close> on Python integers.\<close>

definition truediv :: "int \<Rightarrow> int \<Rightarrow> error + rat" where
  "truediv a b = (if b = 0 then Inl ZeroDivisionError else Inr (of_int a / of_int b))"

text \<open>The frames that \<open>command_ccr\<close> selects, named as its local variables are.\<close>

definition CS :: "cl_frame \<Rightarrow> datetime \<Rightarrow> date \<Rightarrow> cl_frame" where
  "CS df_cl previous_preiod_start start_period =
     filter (\<lambda>row. datetime_ge (col_activated_at row) previous_preiod_start
                  \<and> datetime_less (col_activated_at row) (to_dtime (ADate start_period))) df_cl"

definition tx_in_period :: "tx_frame \<Rightarrow> date \<Rightarrow> date \<Rightarrow> tx_frame" where
  "tx_in_period df_tx start_period end_period =
     filter (\<lambda>row. datetime_ge (col_closed_at row) (to_dtime (ADate start_period))
                  \<and> datetime_less (col_closed_at row) (to_dtime (ADate end_period))) df_tx"

definition clients_with_buy :: "tx_frame \<Rightarrow> int list" where
  "clients_with_buy txs = unique (map col_client_id txs)"

definition cl_left :: "cl_frame \<Rightarrow> int list \<Rightarrow> cl_frame" where
  "cl_left cs with_buy = filter (\<lambda>row. \<not> fst row \<in> set with_buy) cs"

definition CN :: "cl_frame \<Rightarrow> date \<Rightarrow> date \<Rightarrow> cl_frame" where
  "CN df_cl start_period end_period =
     filter (\<lambda>row. datetime_ge (col_activated_at row) (to_dtime (ADate start_period))
                  \<and> datetime_less (col_activated_at row) (to_dtime (ADate end_period))) df_cl"

text \<open>Lines 98 to 136 of \<open>command_ccr\<close>: the selections, the counts printed, the rate.\<close>

definition ccr_report ::
  "tx_frame \<Rightarrow> cl_frame \<Rightarrow> datetime \<Rightarrow> date \<Rightarrow> date \<Rightarrow> 'r world \<Rightarrow> (error + unit) \<times> 'r world" where
  "ccr_report df_tx df_cl previous_preiod_start start_period end_period w =
     (let cs = CS df_cl previous_preiod_start start_period;
          txs = tx_in_period df_tx start_period end_period;
          with_buy = clients_with_buy txs;
          left = cl_left cs with_buy;
          w1 = print (PeriodLine start_period end_period) w;
          w2 = print (ClientsAtPeriodStart (length cs)) w1;
          w3 = print (ClientsLeft (length left)) w2;
          cn = CN df_cl start_period end_period;
          w4 = print (ClientsNew (length cn)) w3;
          w5 = print (TransactionsInPeriod (length txs)) w4
      in if length cs = 0 then (Inr (), print NoClientsSkipPeriod w5)
         else (case truediv (int (length cs) - int (length left)) (int (length cs)) of
                 Inl e \<Rightarrow> (Inl e, w5)
               | Inr CRR \<Rightarrow> (Inr (), print (CRRLine CRR) w5)))"

text \<open>
  Lines 71 to 84 of \<open>command_ccr\<close>: the two frames the calculator works on, refreshed from
  the service when \<open>unload_data\<close> is set and reloaded from the files otherwise. \<open>None\<close> is a
  page loop that never ends.
\<close>

definition load_frames ::
  "'r service \<Rightarrow> string option \<Rightarrow> bool \<Rightarrow> datetime \<Rightarrow> date \<Rightarrow> 'r world
     \<Rightarrow> ((error + tx_frame \<times> cl_frame) \<times> 'r world) option" where
  "load_frames api api_key unload_data previous_preiod_start end_period w =
     (if unload_data then
        (case api_key of
           None \<Rightarrow> Some (Inl AssertionError, w)
         | Some token \<Rightarrow>
             (case unload_transactions_for_date_range api token
                     (ADatetime previous_preiod_start) (ADate end_period)
                     (print RetrieveTransactions w) of
                None \<Rightarrow> None
              | Some (Inl e, w1) \<Rightarrow> Some (Inl e, w1)
              | Some (Inr df_tx, w1) \<Rightarrow>
                  (case unload_clients api token (print RetrieveClients w1) of
                     (Inl e, w2) \<Rightarrow> Some (Inl e, w2)
                   | (Inr df_cl, w2) \<Rightarrow> Some (Inr (df_tx, df_cl), w2))))
      else
        (case update_transactions [] w of
           (Inl e, w1) \<Rightarrow> Some (Inl e, w1)
         | (Inr df_tx, w1) \<Rightarrow>
             (case update_clients [] w1 of
                (Inl e, w2) \<Rightarrow> Some (Inl e, w2)
              | (Inr df_cl, w2) \<Rightarrow> Some (Inr (df_tx, df_cl), w2))))"

text \<open>
  \<open>command_ccr\<close>: the assertion, the look-back start, the frames, the calculator. \<open>None\<close> is
  a call that never returns. An exception leaves the world as it was when it was raised.
\<close>

definition command_ccr ::
  "'r service \<Rightarrow> string option \<Rightarrow> bool \<Rightarrow> date \<Rightarrow> date \<Rightarrow> 'r world
     \<Rightarrow> ((error + unit) \<times> 'r world) option" where
  "command_ccr api api_key unload_data start_period end_period w =
     (if \<not> date_less start_period end_period then Some (Inl AssertionError, w)
      else
        (case date_sub_timedelta start_period (date_diff end_period start_period) of
           Inl e \<Rightarrow> Some (Inl e, w)
         | Inr d \<Rightarrow>
             (let previous_preiod_start = to_dtime (ADate d) in
              case load_frames api api_key unload_data previous_preiod_start end_period w of
                None \<Rightarrow> None
              | Some (Inl e, w2) \<Rightarrow> Some (Inl e, w2)
              | Some (Inr (df_tx, df_cl), w2) \<Rightarrow>
                  Some (ccr_report df_tx df_cl previous_preiod_start start_period end_period w2))))"

section \<open>The monthly stepper: \<open>command_ccr_step_monthly\<close>\<close>

text \<open>
  The \<open>while\<close> loop of \<open>command_ccr_step_monthly\<close>, over the per-period computation \<open>ccr\<close>
  (which is \<open>command_ccr\<close> with the first three arguments fixed).
\<close>

partial_function (option) step_monthly_loop ::
  "(date \<Rightarrow> date \<Rightarrow> 'r world \<Rightarrow> ((error + unit) \<times> 'r world) option) \<Rightarrow> date \<Rightarrow> date \<Rightarrow> 'r world
     \<Rightarrow> ((error + unit) \<times> 'r world) option" where
  [code]: "step_monthly_loop ccr start_period end_period w =
     (if date_less start_period end_period then
        (case monthrange_ndays (year start_period) (month start_period) of
           Inl e \<Rightarrow> Some (Inl e, w)
         | Inr ndays \<Rightarrow>
             (case date_add start_period ndays of
                Inl e \<Rightarrow> Some (Inl e, w)
              | Inr current_end \<Rightarrow>
                  Option.bind
                    (ccr start_period current_end
                       (print (MonthHeader (month start_period) (year start_period)) w))
                    (\<lambda>(r, w1).
                       case r of
                         Inl e \<Rightarrow> Some (Inl e, w1)
                       | Inr _ \<Rightarrow> step_monthly_loop ccr current_end end_period (print BlankLine w1))))
      else Some (Inr (), w))"

definition command_ccr_step_monthly ::
  "'r service \<Rightarrow> string option \<Rightarrow> bool \<Rightarrow> date \<Rightarrow> date \<Rightarrow> 'r world
     \<Rightarrow> ((error + unit) \<times> 'r world) option" where
  "command_ccr_step_monthly api api_key unload_data start_period end_period w =
     step_monthly_loop (command_ccr api api_key unload_data)
       (replace_day_1 start_period) end_period w"

text \<open>
  The plan the monthly stepper is said to follow, for comparison with the loop: \<open>k\<close>
  successive calendar months from the month of \<open>s\<close> on, each as the pair of its first day
  and the first day of the month after; \<open>months_to_plan s e\<close> counts the months from the
  month of \<open>s\<close> whose first day is before \<open>e\<close>; \<open>run_periods\<close> runs the per-period
  computation on the periods of a list in order, printing the month header before and an
  empty line after each, and stops at the first exception.
\<close>

definition first_of_next_month :: "date \<Rightarrow> date" where
  "first_of_next_month d =
     (if month d = 12 then Date (year d + 1) 1 1 else Date (year d) (month d + 1) 1)"

fun month_periods :: "nat \<Rightarrow> date \<Rightarrow> (date \<times> date) list" where
  "month_periods 0 s = []"
| "month_periods (Suc k) s = (s, first_of_next_month s) # month_periods k (first_of_next_month s)"

definition months_to_plan :: "date \<Rightarrow> date \<Rightarrow> nat" where
  "months_to_plan s e =
     nat (12 * (year e - year s) + (month e - month s) + (if 1 < day e then 1 else 0))"

fun run_periods ::
  "(date \<Rightarrow> date \<Rightarrow> 'r world \<Rightarrow> ((error + unit) \<times> 'r world) option) \<Rightarrow> (date \<times> date) list
     \<Rightarrow> 'r world \<Rightarrow> ((error + unit) \<times> 'r world) option" where
  "run_periods ccr [] w = Some (Inr (), w)"
| "run_periods ccr ((s, e) # ps) w =
     Option.bind (ccr s e (print (MonthHeader (month s) (year s)) w))
       (\<lambda>(r, w1). case r of
                     Inl err \<Rightarrow> Some (Inl err, w1)
                   | Inr _ \<Rightarrow> run_periods ccr ps (print BlankLine w1))"

section \<open>A concrete world\<close>

text \<open>
  Five clients and four transactions on file, and a remote service that has nothing new: it
  answers every page request with an empty page and the clients request with an empty list,
  counting the requests it has served.
\<close>

definition example_clients :: cl_frame where
  "example_clients =
     [(1, DateTime (Date 2023 12 10) 0), (2, DateTime (Date 2023 12 20) 3600000000),
      (3, DateTime (Date 2023 12 25) 0), (4, DateTime (Date 2024 1 5) 0),
      (5, DateTime (Date 2023 11 1) 0)]"

definition example_transactions :: tx_frame where
  "example_transactions =
     [(100, 1, DateTime (Date 2024 1 10) 0), (101, 4, DateTime (Date 2024 1 12) 0),
      (102, 2, DateTime (Date 2023 12 22) 0), (103, 1, DateTime (Date 2024 1 31) 86399999999)]"

definition example_service :: "nat service" where
  "example_service =
     \<lparr>getTransactions = (\<lambda>token date_from date_to p n r.
          (Inr \<lparr>data = [], page_info = \<lparr>count = 0, page = p, per_page = n\<rparr>\<rparr>, Suc r)),
      getClients = (\<lambda>token r. (Inr [], Suc r))\<rparr>"

definition example_world :: "nat world" where
  "example_world =
     \<lparr>transactions_feater = Some example_transactions, clients_feater = Some example_clients,
      remote = 0, api_calls = [], stdout = []\<rparr>"

section \<open>Properties of the store\<close>

lemma drop_duplicated_keep_last_keys:
  "fst ` set (drop_duplicated_keep_last rs) = fst ` set rs"
  by (induction rs) auto

lemma drop_duplicated_keep_last_distinct:
  "distinct (map fst (drop_duplicated_keep_last rs))"
proof (induction rs)
  case Nil
  show ?case by simp
next
  case (Cons r rs)
  then show ?case by (simp add: drop_duplicated_keep_last_keys)
qed

lemma drop_duplicated_keep_last_covered:
  "fst ` set a \<subseteq> fst ` set b \<Longrightarrow> distinct (map fst b)
     \<Longrightarrow> drop_duplicated_keep_last (a @ b) = b"
proof (induction a)
  case Nil
  then show ?case
  proof (induction b)
    case Nil
    show ?case by simp
  next
    case (Cons r rs)
    then show ?case by (auto simp: image_iff)
  qed
next
  case (Cons r a)
  then show ?case by auto
qed

lemma drop_duplicated_keep_last_append_keys:
  "fst ` set a \<subseteq> fst ` set (drop_duplicated_keep_last (a @ b))"
  by (simp only: drop_duplicated_keep_last_keys) auto

text \<open>
  C6. The call raises exactly when the batch is empty and the file does not exist (and then
  the exception is \<open>Exception("Dataframe is empty")\<close> and nothing is written); with an
  empty batch and an existing file it returns the stored frame unchanged and writes it back.
\<close>

theorem df_store_empty_persist:
  "(isl (fst (df_store key_field columns stored items)) \<longleftrightarrow> items = [] \<and> stored = None)
   \<and> df_store key_field columns None [] = (Inl (Exception ''Dataframe is empty''), None)
   \<and> df_store key_field columns (Some S) [] = (Inr S, Some S)"
  by (cases stored) (auto simp: df_store_def Let_def)

text \<open>
  Storing a batch a second time returns and persists exactly the frame of the first call
  whenever the file exists before the first call (any rows, repeated keys included) or the
  batch has no repeated key.
\<close>

lemma df_store_twice:
  assumes "stored \<noteq> None \<or> distinct (map key_field B)"
  shows "df_store key_field columns (snd (df_store key_field columns stored B)) B
           = df_store key_field columns stored B"
proof (cases "B = []")
  case True
  then show ?thesis by (cases stored) (simp_all add: df_store_def)
next
  case False
  let ?df = "from_records key_field columns B"
  show ?thesis
  proof (cases stored)
    case None
    with assms have "distinct (map fst ?df)" by (simp add: from_records_def comp_def)
    then have "drop_duplicated_keep_last (?df @ ?df) = ?df"
      by (intro drop_duplicated_keep_last_covered) simp_all
    with None False show ?thesis by (simp add: df_store_def concat_frames_def)
  next
    case (Some S)
    let ?M = "drop_duplicated_keep_last (?df @ S)"
    have first: "df_store key_field columns (Some S) B = (Inr ?M, Some ?M)"
      using False by (simp add: df_store_def concat_frames_def)
    have "drop_duplicated_keep_last (?df @ ?M) = ?M"
      by (rule drop_duplicated_keep_last_covered)
         (rule drop_duplicated_keep_last_append_keys, rule drop_duplicated_keep_last_distinct)
    then have "df_store key_field columns (Some ?M) B = (Inr ?M, Some ?M)"
      using False by (simp add: df_store_def concat_frames_def)
    with first Some show ?thesis by simp
  qed
qed

text \<open>
  C4. No file yet and a batch with key 1 twice: the first call persists both rows, the
  second call with the same batch persists only the last of them. Storing the batch twice
  does not leave the pairs that storing it once leaves.
\<close>

theorem df_store_twice_differs_on_first_write:
  "snd (df_store fst snd None [(1::int, ''a''), (1, ''b'')]) = Some [(1, ''a''), (1, ''b'')]
   \<and> snd (df_store fst snd (snd (df_store fst snd None [(1::int, ''a''), (1, ''b'')]))
            [(1, ''a''), (1, ''b'')]) = Some [(1, ''b'')]
   \<and> set [(1::int, ''a''), (1, ''b'')] \<noteq> set [(1, ''b'')]"
  by (simp add: df_store_def from_records_def concat_frames_def Let_def)

lemma map_of_drop_duplicated_keep_last:
  "map_of (drop_duplicated_keep_last rs) = map_of (rev rs)"
proof (induction rs)
  case Nil
  show ?case by simp
next
  case (Cons r rs)
  obtain k v where r: "r = (k, v)" by (cases r)
  show ?case
  proof (cases "k \<in> fst ` set rs")
    case True
    then have "k \<in> dom (map_of (rev rs))" by (simp add: dom_map_of_conv_image_fst)
    then have "(map_of (rev rs))(k \<mapsto> v) ++ map_of (rev rs) = map_of (rev rs)"
      by (auto simp: map_add_def fun_eq_iff split: option.splits)
    moreover have "[k \<mapsto> v] ++ map_of (rev rs) = map_of (rev rs)"
      using \<open>k \<in> dom (map_of (rev rs))\<close>
      by (auto simp: map_add_def fun_eq_iff split: option.splits)
    ultimately show ?thesis using True Cons r by simp
  next
    case False
    then have "k \<notin> dom (map_of (rev rs))" by (simp add: dom_map_of_conv_image_fst)
    then have "[k \<mapsto> v] ++ map_of (rev rs) = (map_of (rev rs))(k \<mapsto> v)"
      by (auto simp: map_add_def fun_eq_iff domIff split: option.splits)
    then show ?thesis using False Cons r by simp
  qed
qed

text \<open>
  What a merging call (existing file, non-empty batch) returns: one row per key, and on a
  key of both sides the value of the file, the batch's value only for keys the file lacks.
\<close>

lemma df_store_merge_unique:
  "B \<noteq> [] \<Longrightarrow> df_store key_field columns (Some S) B = (Inr M, f) \<Longrightarrow> distinct (map fst M)"
  by (auto simp: df_store_def drop_duplicated_keep_last_distinct)

lemma df_store_merge_lookup:
  "B \<noteq> [] \<Longrightarrow> df_store key_field columns (Some S) B = (Inr M, f) \<Longrightarrow>
     map_of M k = (case map_of (rev S) k of
                     Some v \<Rightarrow> Some v
                   | None \<Rightarrow> map_of (rev (from_records key_field columns B)) k)"
  by (auto simp: df_store_def concat_frames_def map_of_drop_duplicated_keep_last map_add_def
           split: option.splits)

text \<open>
  C1. The file holds key 1 with value \<open>v1\<close>, the batch holds key 1 with value \<open>v2\<close>: the
  frame returned and persisted maps key 1 to the value of the file.
\<close>

theorem df_store_collision_keeps_stored:
  "df_store fst snd (Some [(1::int, ''v1'')]) [(1, ''v2'')]
     = (Inr [(1, ''v1'')], Some [(1, ''v1'')])"
  by (simp add: df_store_def from_records_def concat_frames_def)

text \<open>
  C5. No file yet and a batch with key 1 twice: both rows are returned and persisted.
\<close>

theorem df_store_first_write_keeps_duplicates:
  "df_store fst snd None [(1::int, ''a''), (1, ''b'')]
     = (Inr [(1, ''a''), (1, ''b'')], Some [(1, ''a''), (1, ''b'')])
   \<and> \<not> distinct (map fst [(1::int, ''a''), (1, ''b'')])"
  by (simp add: df_store_def from_records_def Let_def)

section \<open>Properties of the response envelope\<close>

lemma parse_obj_as_ApiError_Some:
  "parse_obj_as_ApiError as_str as_int body = Some (m, c) \<longleftrightarrow>
     (\<exists>jm jc. body ''message'' = Some jm \<and> as_str jm = Some m
              \<and> body ''error'' = Some jc \<and> as_int jc = Some c)"
  by (auto simp: parse_obj_as_ApiError_def split: option.splits)

text \<open>
  C10, as amended. The payload under \<open>response\<close> is returned whenever that key is present,
  whatever else the body holds; the generic exception is raised exactly when neither key is
  present; with \<open>error\<close> present and \<open>response\<close> absent the body is validated as an
  \<open>ApiError\<close>: the \<open>ApiError\<close> carrying message and code is raised exactly when the
  validation succeeds, and \<open>ValidationError\<close> exactly when it fails.
\<close>

theorem json_response_precedence:
  "json_response as_str as_int (body(''response'' \<mapsto> p)) = Inr p
   \<and> ((\<exists>q. json_response as_str as_int body = Inr q) \<longleftrightarrow> ''response'' \<in> dom body)
   \<and> (json_response as_str as_int body = Inl (Exception ''unexpected response'')
        \<longleftrightarrow> ''response'' \<notin> dom body \<and> ''error'' \<notin> dom body)
   \<and> (json_response as_str as_int body = Inl (ApiError m c)
        \<longleftrightarrow> ''response'' \<notin> dom body \<and> ''error'' \<in> dom body
            \<and> parse_obj_as_ApiError as_str as_int body = Some (m, c))
   \<and> (json_response as_str as_int body = Inl ValidationError
        \<longleftrightarrow> ''response'' \<notin> dom body \<and> ''error'' \<in> dom body
            \<and> parse_obj_as_ApiError as_str as_int body = None)"
  by (auto simp: json_response_def domIff split: option.splits)

text \<open>
  The body \<open>{"error": 5}\<close> has \<open>error\<close> and no \<open>response\<close>, yet no \<open>ApiError\<close> is raised:
  the required field \<open>message\<close> is missing and the validation error comes out instead.
\<close>

theorem json_response_error_without_message:
  "''error'' \<in> dom [''error'' \<mapsto> JInt 5] \<and> ''response'' \<notin> dom [''error'' \<mapsto> JInt 5]
   \<and> json_response json_str json_int [''error'' \<mapsto> JInt 5] = Inl ValidationError"
  by (simp add: json_response_def parse_obj_as_ApiError_def)

section \<open>Properties of the paginated fetch\<close>

lemma served_loop:
  "served get_page p n s pages s'
     \<Longrightarrow> iter_transactions_loop get_page p n n s = Some (concat (map data pages), None, s')"
proof (induction get_page p n s pages s' rule: served.induct)
  case (1 get_page p n s s')
  then show ?case by simp
next
  case (2 get_page p n s d s')
  then show ?case
    by (subst iter_transactions_loop.simps, subst iter_transactions_loop.simps) simp
next
  case (3 get_page p n s d d' ds s')
  then show ?case
    by (subst iter_transactions_loop.simps) (auto split: prod.splits sum.splits)
qed

lemma loop_served:
  assumes "iter_transactions_loop get_page p n c s = Some res"
  shows "fst (snd res) = None \<longrightarrow>
     (if n = c then \<exists>pages. served get_page p n s pages (snd (snd res)) \<and> fst res = concat (map data pages)
      else res = ([], None, s))"
proof (rule iter_transactions_loop.raw_induct[where P = "\<lambda>gp p n c s res. fst (snd res) = None \<longrightarrow>
     (if n = c then \<exists>pages. served gp p n s pages (snd (snd res)) \<and> fst res = concat (map data pages)
      else res = ([], None, s))", OF _ assms], goal_cases)
  case (1 f gp p n c s res)
  show ?case
  proof (intro impI)
    assume ok: "fst (snd res) = None"
    show "if n = c then \<exists>pages. served gp p n s pages (snd (snd res)) \<and> fst res = concat (map data pages)
      else res = ([], None, s)"
    proof (cases "n = c")
      case False
      with 1(2) show ?thesis by simp
    next
      case True
      obtain r s1 where gp: "gp p n s = (r, s1)" by (cases "gp p n s")
      show ?thesis
      proof (cases r)
        case (Inl e)
        with 1(2) True gp ok show ?thesis by auto
      next
        case (Inr d)
        with 1(2) True gp obtain items raised s'' where
          rec: "f gp (page (page_info d) + 1) (per_page (page_info d)) (count (page_info d)) s1
                  = Some (items, raised, s'')"
          and res: "res = (data d @ items, raised, s'')"
          by (auto simp: bind_eq_Some_conv)
        from res ok have raised: "raised = None" by simp
        from 1(1)[OF rec] raised have IH:
          "if per_page (page_info d) = count (page_info d)
           then \<exists>pages. served gp (page (page_info d) + 1) (per_page (page_info d)) s1 pages s''
                  \<and> items = concat (map data pages)
           else (items, raised, s'') = ([], None, s1)" by (auto split: if_splits)
        show ?thesis
        proof (cases "per_page (page_info d) = count (page_info d)")
          case False
          with IH have "items = []" "s'' = s1" by simp_all
          with False gp Inr res raised True have
            "served gp p n s [d] (snd (snd res)) \<and> fst res = concat (map data [d])" by auto
          then have "\<exists>pages. served gp p n s pages (snd (snd res)) \<and> fst res = concat (map data pages)"
            by blast
          with True show ?thesis by (simp only: refl if_True)
        next
          case same: True
          with IH obtain pages where pg: "served gp (page (page_info d) + 1) (per_page (page_info d)) s1 pages s''"
            and it: "items = concat (map data pages)" by auto
          from pg obtain d' ds where "pages = d' # ds" by (cases pages) auto
          with pg it same gp Inr res have
            "served gp p n s (d # pages) (snd (snd res)) \<and> fst res = concat (map data (d # pages))"
            by auto
          then have "\<exists>pages. served gp p n s pages (snd (snd res)) \<and> fst res = concat (map data pages)"
            by blast
          with True show ?thesis by (simp only: refl if_True)
        qed
      qed
    qed
  qed
qed

text \<open>
  C2, as amended. The generator ends normally with the items \<open>items\<close> exactly when the
  source serves a run of pages \<open>pages\<close> from the caller's page index on: the first request
  is for \<open>from_page\<close> with the caller's size, each later request is for the page after the
  one just echoed with the echoed size, every page but the last has \<open>count = per_page\<close>
  (both as echoed), the last one has \<open>count \<noteq> per_page\<close>, and \<open>items\<close> are the records
  of these pages, each page once, in the order fetched.
\<close>

theorem iter_transactions_served:
  "iter_transactions get_page from_page n s = Some (items, None, s')
     \<longleftrightarrow> (\<exists>pages. served get_page from_page n s pages s' \<and> items = concat (map data pages))"
  using loop_served[of get_page from_page n n s "(items, None, s')"]
        served_loop[of get_page from_page n s _ s']
  by (auto simp: iter_transactions_def)

theorem iter_transactions_served_witness:
  "iter_transactions short_last_source 1 2 0 = Some ([10, 11, 20, 21, 30], None, 3)"
proof -
  let ?pg = "\<lambda>p xs c. \<lparr>data = xs, page_info = \<lparr>count = c, page = p, per_page = 2\<rparr>\<rparr>"
  have "served short_last_source 1 2 0 [?pg 1 [10, 11] 2, ?pg 2 [20, 21] 2, ?pg 3 [30] 1] 3
        \<and> [10, 11, 20, 21, 30] = concat (map data [?pg 1 [10, 11] 2, ?pg 2 [20, 21] 2, ?pg 3 [30] 1])"
    by (simp add: short_last_source_def numeral_3_eq_3)
  then have "\<exists>pages. served short_last_source 1 2 0 pages 3
               \<and> [10, 11, 20, 21, 30] = concat (map data pages)"
    by (rule exI)
  then show ?thesis
    by (simp only: iter_transactions_served[of short_last_source 1 2 0 "[10, 11, 20, 21, 30]" 3])
qed

text \<open>
  The first page served has \<open>count = 3\<close> and \<open>per_page = 2\<close>: its count is not less than its
  per_page, yet the fetch stops after this one request.
\<close>

theorem iter_transactions_stops_on_oversized_page:
  "fst (oversized_source 1 2 0) = Inr \<lparr>data = [1], page_info = \<lparr>count = 3, page = 1, per_page = 2\<rparr>\<rparr>
   \<and> \<not> (3::int) < 2
   \<and> iter_transactions oversized_source 1 2 0 = Some ([1], None, Suc 0)"
  by (simp add: iter_transactions_def oversized_source_def iter_transactions_loop.simps)

section \<open>Properties of the date arithmetic\<close>

text \<open>
  Stepping day by day agrees with the ordinal: the day after a date has the next ordinal, so
  \<open>d + timedelta(days=n)\<close> has ordinal \<open>d.toordinal() + n\<close>, and the look-back start
  \<open>start - (end - start)\<close> lies as many days before \<open>start\<close> as \<open>end\<close> lies after it.
\<close>

lemma div_step: "0 < k \<Longrightarrow> (y::int) div k - (y - 1) div k = (if y mod k = 0 then 1 else 0)"
proof -
  assume k: "0 < k"
  have y: "y = k * (y div k) + y mod k" by simp
  have r: "0 \<le> y mod k" "y mod k < k" using k by simp_all
  show ?thesis
  proof (cases "y mod k = 0")
    case True
    then have "y - 1 = k * (y div k - 1) + (k - 1)" using y by (simp add: algebra_simps)
    then have "(y - 1) div k = y div k - 1"
      using k by (metis add.commute diff_ge_0_iff_ge div_mult_self2 div_pos_pos_trivial
           less_le_not_le linorder_not_le zle_diff1_eq diff_less_eq less_add_same_cancel2 zero_less_one add_0)
    with True show ?thesis by simp
  next
    case False
    then have pos: "0 < y mod k" using r by simp
    have "y - 1 = k * (y div k) + (y mod k - 1)" using y by simp
    moreover have "0 \<le> y mod k - 1" "y mod k - 1 < k" using pos r by simp_all
    ultimately have "(y - 1) div k = y div k"
      by (metis add.commute div_mult_self2 div_pos_pos_trivial k less_irrefl add_0)
    with False show ?thesis by simp
  qed
qed

lemma mod_chain: "(y::int) mod 400 = 0 \<Longrightarrow> y mod 100 = 0" "(y::int) mod 100 = 0 \<Longrightarrow> y mod 4 = 0"
proof -
  have a: "(100::int) dvd 400" and b: "(4::int) dvd 100" by simp_all
  show "y mod 400 = 0 \<Longrightarrow> y mod 100 = 0"
    using dvd_trans[OF a, of y] by (simp add: mod_eq_0_iff_dvd)
  show "y mod 100 = 0 \<Longrightarrow> y mod 4 = 0"
    using dvd_trans[OF b, of y] by (simp add: mod_eq_0_iff_dvd)
qed

lemma days_before_year_Suc:
  "days_before_year (y + 1) = days_before_year y + (if isleap y then 366 else 365)"
proof -
  have "days_before_year (y + 1) - days_before_year y
          = 365 + (y div 4 - (y - 1) div 4) - (y div 100 - (y - 1) div 100)
              + (y div 400 - (y - 1) div 400)"
    by (simp add: days_before_year_def Let_def)
  also have "\<dots> = 365 + (if y mod 4 = 0 then 1 else 0) - (if y mod 100 = 0 then 1 else 0)
                       + (if y mod 400 = 0 then 1 else 0)"
    by (simp only: div_step[of 4 y] div_step[of 100 y] div_step[of 400 y])
  also have "\<dots> = (if isleap y then 366 else 365)"
    using mod_chain[of y] unfolding isleap_def by (cases "y mod 4 = 0"; cases "y mod 100 = 0"; cases "y mod 400 = 0") simp_all
  finally show ?thesis by simp
qed

lemma month_cases:
  "1 \<le> m \<Longrightarrow> m \<le> 12 \<Longrightarrow>
     m = 1 \<or> m = 2 \<or> m = 3 \<or> m = 4 \<or> m = 5 \<or> m = 6 \<or> m = 7 \<or> m = 8 \<or> m = 9 \<or> m = 10
       \<or> m = 11 \<or> m = (12::int)"
  by arith

lemma days_before_month_Suc:
  assumes "1 \<le> m" "m < 12"
  shows "days_before_month y (m + 1) = days_before_month y m + days_in_month y m"
  using month_cases[of m] assms
  by (auto simp: days_before_month_def days_in_month_def mdays_def)

lemma days_before_month_12:
  "days_before_month y 12 + days_in_month y 12 = (if isleap y then 366 else 365)"
  by (simp add: days_before_month_def days_in_month_def mdays_def)

lemma days_before_month_1: "days_before_month y 1 = 0"
  by (simp add: days_before_month_def)

lemma toordinal_next_day:
  assumes "in_calendar d"
  shows "toordinal (next_day d) = toordinal d + 1 \<and> in_calendar (next_day d)"
proof -
  obtain y m n where d: "d = Date y m n" by (cases d)
  from assms d have m: "1 \<le> m" "m \<le> 12" "1 \<le> n" "n \<le> days_in_month y m"
    by (simp_all add: in_calendar_def)
  consider "n < days_in_month y m" | "n = days_in_month y m" "m < 12"
    | "n = days_in_month y m" "m = 12"
    using m by linarith
  then show ?thesis
  proof cases
    case 1
    then show ?thesis using m d by (simp add: next_day_def toordinal_def in_calendar_def)
  next
    case 2
    have "28 \<le> days_in_month y (m + 1)"
      using month_cases[of "m + 1"] m 2 by (auto simp: days_in_month_def mdays_def)
    then show ?thesis
      using 2 m d days_before_month_Suc[of m y]
      by (simp add: next_day_def toordinal_def in_calendar_def)
  next
    case 3
    then show ?thesis
      using d days_before_year_Suc[of y] days_before_month_12[of y]
      by (simp add: next_day_def toordinal_def in_calendar_def days_before_month_1
            days_in_month_def mdays_def)
  qed
qed

lemma toordinal_prev_day:
  assumes "in_calendar d"
  shows "toordinal (prev_day d) = toordinal d - 1 \<and> in_calendar (prev_day d)"
proof -
  obtain y m n where d: "d = Date y m n" by (cases d)
  from assms d have m: "1 \<le> m" "m \<le> 12" "1 \<le> n" "n \<le> days_in_month y m"
    by (simp_all add: in_calendar_def)
  consider "1 < n" | "n = 1" "1 < m" | "n = 1" "m = 1"
    using m by linarith
  then show ?thesis
  proof cases
    case 1
    then show ?thesis using m d by (simp add: prev_day_def toordinal_def in_calendar_def)
  next
    case 2
    have "28 \<le> days_in_month y (m - 1)"
      using month_cases[of "m - 1"] m 2 by (auto simp: days_in_month_def mdays_def)
    then show ?thesis
      using 2 m d days_before_month_Suc[of "m - 1" y]
      by (simp add: prev_day_def toordinal_def in_calendar_def)
  next
    case 3
    then show ?thesis
      using d days_before_year_Suc[of "y - 1"] days_before_month_12[of "y - 1"]
      by (simp add: prev_day_def toordinal_def in_calendar_def days_before_month_1
            days_in_month_def mdays_def)
  qed
qed

lemma toordinal_days_later:
  "in_calendar d \<Longrightarrow>
     toordinal (days_later n d) = toordinal d + int n \<and> in_calendar (days_later n d)"
proof (induction n arbitrary: d)
  case 0
  then show ?case by simp
next
  case (Suc n)
  from toordinal_next_day[OF Suc.prems] Suc.IH[of "next_day d"] show ?case by simp
qed

lemma toordinal_days_earlier:
  "in_calendar d \<Longrightarrow>
     toordinal (days_earlier n d) = toordinal d - int n \<and> in_calendar (days_earlier n d)"
proof (induction n arbitrary: d)
  case 0
  then show ?case by simp
next
  case (Suc n)
  from toordinal_prev_day[OF Suc.prems] Suc.IH[of "prev_day d"] show ?case by simp
qed

lemma toordinal_date_add:
  assumes "in_calendar d" "date_add d n = Inr r"
  shows "toordinal r = toordinal d + n \<and> valid_date r"
proof (cases "0 \<le> n")
  case True
  with assms(2) have r: "r = days_later (nat n) d" "1 \<le> year r" "year r \<le> 9999"
    by (auto simp: date_add_def Let_def split: if_splits)
  with toordinal_days_later[OF assms(1), of "nat n"] True show ?thesis
    by (simp add: valid_date_def in_calendar_def)
next
  case False
  with assms(2) have r: "r = days_earlier (nat (- n)) d" "1 \<le> year r" "year r \<le> 9999"
    by (auto simp: date_add_def Let_def split: if_splits)
  with toordinal_days_earlier[OF assms(1), of "nat (- n)"] False show ?thesis
    by (simp add: valid_date_def in_calendar_def)
qed

lemma days_before_year_mono: "y \<le> y' \<Longrightarrow> days_before_year y \<le> days_before_year y'"
proof (induction y' rule: int_ge_induct)
  case base
  show ?case by simp
next
  case (step i)
  then show ?case using days_before_year_Suc[of i] by (simp split: if_splits)
qed

lemma days_before_year_1: "days_before_year 1 = 0"
  by (simp add: days_before_year_def)

lemma days_before_year_10000: "days_before_year 10000 = 3652059"
  by (simp add: days_before_year_def)

lemma day_of_year_bounds:
  assumes "in_calendar d"
  shows "1 \<le> days_before_month (year d) (month d) + day d"
    and "days_before_month (year d) (month d) + day d \<le> (if isleap (year d) then 366 else 365)"
  using assms month_cases[of "month d"]
  by (auto simp: in_calendar_def days_before_month_def days_in_month_def mdays_def)

lemma toordinal_year_bounds:
  assumes "in_calendar d"
  shows "days_before_year (year d) < toordinal d"
    and "toordinal d \<le> days_before_year (year d + 1)"
  using day_of_year_bounds[OF assms] days_before_year_Suc[of "year d"]
  by (simp_all add: toordinal_def split: if_splits)

lemma toordinal_ge_1:
  assumes "in_calendar d"
  shows "1 \<le> toordinal d \<longleftrightarrow> 1 \<le> year d"
proof
  assume "1 \<le> toordinal d"
  show "1 \<le> year d"
  proof (rule ccontr)
    assume "\<not> 1 \<le> year d"
    then have "year d + 1 \<le> 1" by simp
    from days_before_year_mono[OF this] toordinal_year_bounds(2)[OF assms] \<open>1 \<le> toordinal d\<close>
    show False by (simp add: days_before_year_1)
  qed
next
  assume "1 \<le> year d"
  from days_before_year_mono[OF this] toordinal_year_bounds(1)[OF assms]
  show "1 \<le> toordinal d" by (simp add: days_before_year_1)
qed

lemma toordinal_le_max:
  assumes "in_calendar d"
  shows "toordinal d \<le> 3652059 \<longleftrightarrow> year d \<le> 9999"
proof
  assume a: "toordinal d \<le> 3652059"
  show "year d \<le> 9999"
  proof (rule ccontr)
    assume "\<not> year d \<le> 9999"
    then have "10000 \<le> year d" by simp
    from days_before_year_mono[OF this] toordinal_year_bounds(1)[OF assms] a
    show False by (simp add: days_before_year_10000)
  qed
next
  assume "year d \<le> 9999"
  then have "year d + 1 \<le> 10000" by simp
  from days_before_year_mono[OF this] toordinal_year_bounds(2)[OF assms]
  show "toordinal d \<le> 3652059" by (simp add: days_before_year_10000)
qed

lemma date_add_defined:
  assumes "in_calendar d"
  shows "(\<exists>r. date_add d n = Inr r) \<longleftrightarrow> 1 \<le> toordinal d + n \<and> toordinal d + n \<le> 3652059"
proof (cases "0 \<le> n")
  case True
  from toordinal_days_later[OF assms, of "nat n"] True
  have o: "toordinal (days_later (nat n) d) = toordinal d + n"
    and c: "in_calendar (days_later (nat n) d)" by simp_all
  show ?thesis
    using True toordinal_ge_1[OF c] toordinal_le_max[OF c]
    by (auto simp: date_add_def Let_def o)
next
  case False
  from toordinal_days_earlier[OF assms, of "nat (- n)"] False
  have o: "toordinal (days_earlier (nat (- n)) d) = toordinal d + n"
    and c: "in_calendar (days_earlier (nat (- n)) d)" by simp_all
  show ?thesis
    using False toordinal_ge_1[OF c] toordinal_le_max[OF c]
    by (auto simp: date_add_def Let_def o)
qed

lemma days_before_month_mono:
  "m \<le> m' \<Longrightarrow> 1 \<le> m \<Longrightarrow> m' \<le> 12 \<Longrightarrow> days_before_month y m \<le> days_before_month y m'"
proof (induction m' rule: int_ge_induct)
  case base
  show ?case by simp
next
  case (step i)
  then have "1 \<le> i" "i < 12" by simp_all
  from days_before_month_Suc[OF this, of y] step show ?case
    using month_cases[of i] by (auto simp: days_in_month_def mdays_def)
qed

lemma toordinal_mono:
  assumes "in_calendar a" "in_calendar b" "date_less a b"
  shows "toordinal a < toordinal b"
proof -
  consider "year a < year b" | "year a = year b" "month a < month b"
    | "year a = year b" "month a = month b" "day a < day b"
    using assms(3) by (auto simp: date_less_def)
  then show ?thesis
  proof cases
    case 1
    then have "year a + 1 \<le> year b" by simp
    from days_before_year_mono[OF this] toordinal_year_bounds(2)[OF assms(1)]
      toordinal_year_bounds(1)[OF assms(2)]
    show ?thesis by simp
  next
    case 2
    have m: "1 \<le> month a" "month a < 12" "month a + 1 \<le> month b" "month b \<le> 12"
      "day a \<le> days_in_month (year a) (month a)" "1 \<le> day b"
      using assms(1,2) 2 by (simp_all add: in_calendar_def)
    have "days_before_month (year a) (month a + 1) \<le> days_before_month (year a) (month b)"
      using m by (intro days_before_month_mono) simp_all
    with days_before_month_Suc[OF m(1,2), of "year a"] m 2 show ?thesis
      by (simp add: toordinal_def)
  next
    case 3
    then show ?thesis by (simp add: toordinal_def)
  qed
qed

lemma lookback_window_length:
  assumes "valid_date start_period"
    and "date_sub_timedelta start_period (date_diff end_period start_period) = Inr lookback"
  shows "date_diff start_period lookback = date_diff end_period start_period \<and> valid_date lookback"
proof -
  have "in_calendar start_period" using assms(1) by (simp add: valid_date_def in_calendar_def)
  from toordinal_date_add[OF this assms(2)[unfolded date_sub_timedelta_def]]
  show ?thesis by (simp add: date_diff_def)
qed

text \<open>
  The look-back start of a period is a date exactly when the period is shorter than the
  ordinal of its start, that is, when it is not before 0001-01-01 (ordinal 1); 3652059 is the
  ordinal of 9999-12-31.
\<close>

lemma lookback_defined:
  assumes "valid_date start_period" "valid_date end_period"
    and "date_less start_period end_period"
  shows "(\<exists>lookback. date_sub_timedelta start_period (date_diff end_period start_period)
                        = Inr lookback)
     \<longleftrightarrow> date_diff end_period start_period < toordinal start_period"
proof -
  have c: "in_calendar start_period" "in_calendar end_period"
    using assms(1,2) by (simp_all add: valid_date_def in_calendar_def)
  have "toordinal start_period \<le> 3652059"
    using toordinal_le_max[OF c(1)] assms(1) by (simp add: valid_date_def)
  moreover have "0 < date_diff end_period start_period"
    using toordinal_mono[OF c assms(3)] by (simp add: date_diff_def)
  ultimately show ?thesis
    unfolding date_sub_timedelta_def date_add_defined[OF c(1)] by auto
qed

section \<open>Properties of the retention calculator\<close>

text \<open>
  C9. With \<open>start_period \<ge> end_period\<close> the call raises \<open>AssertionError\<close> and the world
  is exactly as before: no request was sent, no file was written, nothing was printed.
\<close>

theorem command_ccr_rejects_invalid_period:
  "\<not> date_less start_period end_period \<Longrightarrow>
     command_ccr api api_key unload_data start_period end_period w = Some (Inl AssertionError, w)"
  by (simp add: command_ccr_def)

theorem command_ccr_rejects_invalid_period_witness:
  "\<not> date_less (Date 2024 3 1) (Date 2024 1 15)
   \<and> command_ccr example_service (Some ''token'') True (Date 2024 3 1) (Date 2024 1 15) example_world
       = Some (Inl AssertionError, example_world)"
  using command_ccr_rejects_invalid_period
          [of "Date 2024 3 1" "Date 2024 1 15" example_service "Some ''token''" True example_world]
  by (simp add: date_less_def)


lemmas example_eval = example_transactions_def example_clients_def example_world_def
  CS_def CN_def cl_left_def clients_with_buy_def tx_in_period_def unique_def
  col_activated_at_def col_client_id_def col_closed_at_def datetime_ge_def datetime_less_def
  date_less_def


lemma update_transactions_reload:
  "transactions_feater w = Some df_tx \<Longrightarrow> update_transactions [] w = (Inr df_tx, w)"
  by (simp add: update_transactions_def df_store_def)

lemma update_clients_reload:
  "clients_feater w = Some df_cl \<Longrightarrow> update_clients [] w = (Inr df_cl, w)"
  by (simp add: update_clients_def df_store_def)

lemma set_unique: "set (unique xs) = set xs" "distinct (unique xs)"
  by (simp_all add: unique_def)

lemma load_frames_reload:
  "transactions_feater w = Some df_tx \<Longrightarrow> clients_feater w = Some df_cl \<Longrightarrow>
     load_frames api api_key False previous_preiod_start end_period w
       = Some (Inr (df_tx, df_cl), w)"
  by (simp add: load_frames_def update_transactions_reload update_clients_reload)

text \<open>
  C3, as amended. Take a period \<open>start < end\<close> whose look-back start \<open>start - (end - start)\<close>
  is a date, \<open>lookback\<close> (the subtraction does not raise: it is not before 0001-01-01,
  \<open>lookback_defined\<close>), and let the frames the calculator works on, refreshed or
  reloaded, be \<open>df_tx\<close> and \<open>df_cl\<close>. Then \<open>lookback\<close> lies as many days before
  \<open>start\<close> as \<open>end\<close> lies after it; the cohort at period start is the clients
  activated in \<open>[lookback, start)\<close>, the transactions in the period are those closed in
  \<open>[start, end)\<close>, the clients with a purchase are the distinct \<open>client_id\<close> values of
  these, the clients left are the cohort members whose id is not among them, and the new
  clients are those activated in \<open>[start, end)\<close>, every interval half-open, from midnight to
  midnight; and the call prints the sizes of exactly these collections, then the rate or the
  skip line.
\<close>

theorem command_ccr_cohorts:
  assumes "valid_date start_period"
    and "date_less start_period end_period"
    and "date_sub_timedelta start_period (date_diff end_period start_period) = Inr lookback"
    and "load_frames api api_key unload_data (DateTime lookback 0) end_period w
           = Some (Inr (df_tx, df_cl), w')"
  shows "(let lookback_start = DateTime lookback 0;
              period_start = DateTime start_period 0;
              period_end = DateTime end_period 0;
              cohort = filter (\<lambda>(cid, activated). \<not> datetime_less activated lookback_start
                                  \<and> datetime_less activated period_start) df_cl;
              in_period = filter (\<lambda>(tid, client, closed). \<not> datetime_less closed period_start
                                  \<and> datetime_less closed period_end) df_tx;
              buyers = (\<lambda>(tid, client, closed). client) ` set in_period;
              churned = filter (\<lambda>(cid, activated). cid \<notin> buyers) cohort;
              newcomers = filter (\<lambda>(cid, activated). \<not> datetime_less activated period_start
                                  \<and> datetime_less activated period_end) df_cl
          in date_diff start_period lookback = date_diff end_period start_period
           \<and> command_ccr api api_key unload_data start_period end_period w
               = Some (Inr (),
                   w'\<lparr>stdout := stdout w' @
                      [PeriodLine start_period end_period,
                       ClientsAtPeriodStart (length cohort),
                       ClientsLeft (length churned),
                       ClientsNew (length newcomers),
                       TransactionsInPeriod (length in_period),
                       if length cohort = 0 then NoClientsSkipPeriod
                       else CRRLine (of_int (int (length cohort) - int (length churned))
                                       / of_int (int (length cohort)))]\<rparr>)
           \<and> CS df_cl lookback_start start_period = cohort
           \<and> tx_in_period df_tx start_period end_period = in_period
           \<and> set (clients_with_buy in_period) = buyers
           \<and> distinct (clients_with_buy in_period)
           \<and> cl_left cohort (clients_with_buy in_period) = churned
           \<and> CN df_cl start_period end_period = newcomers)"
proof -
  let ?lb = "DateTime lookback 0"
  let ?cohort = "filter (\<lambda>(cid, activated). \<not> datetime_less activated ?lb
                    \<and> datetime_less activated (DateTime start_period 0)) df_cl"
  let ?in_period = "filter (\<lambda>(tid, client, closed).
                      \<not> datetime_less closed (DateTime start_period 0)
                    \<and> datetime_less closed (DateTime end_period 0)) df_tx"
  let ?buyers = "(\<lambda>(tid, client, closed). client) ` set ?in_period"
  let ?churned = "filter (\<lambda>(cid, activated). cid \<notin> ?buyers) ?cohort"
  let ?newcomers = "filter (\<lambda>(cid, activated).
                      \<not> datetime_less activated (DateTime start_period 0)
                    \<and> datetime_less activated (DateTime end_period 0)) df_cl"
  have len: "date_diff start_period lookback = date_diff end_period start_period"
    using lookback_window_length[OF assms(1,3)] by simp
  have cs: "CS df_cl ?lb start_period = ?cohort"
    by (simp add: CS_def datetime_ge_def col_activated_at_def case_prod_unfold)
  have tx: "tx_in_period df_tx start_period end_period = ?in_period"
    by (simp add: tx_in_period_def datetime_ge_def col_closed_at_def case_prod_unfold)
  have buy: "set (clients_with_buy ?in_period) = ?buyers"
    by (simp add: clients_with_buy_def set_unique col_client_id_def case_prod_unfold)
  have dist: "distinct (clients_with_buy ?in_period)"
    by (simp add: clients_with_buy_def set_unique)
  have left: "cl_left ?cohort (clients_with_buy ?in_period) = ?churned"
    unfolding cl_left_def buy by (simp add: case_prod_unfold)
  have cn: "CN df_cl start_period end_period = ?newcomers"
    by (simp add: CN_def datetime_ge_def col_activated_at_def case_prod_unfold)
  have run: "command_ccr api api_key unload_data start_period end_period w
               = Some (ccr_report df_tx df_cl ?lb start_period end_period w')"
    using assms(2-4) by (simp add: command_ccr_def)
  have report: "ccr_report df_tx df_cl ?lb start_period end_period w'
               = (Inr (),
                   w'\<lparr>stdout := stdout w' @
                      [PeriodLine start_period end_period,
                       ClientsAtPeriodStart (length ?cohort),
                       ClientsLeft (length ?churned),
                       ClientsNew (length ?newcomers),
                       TransactionsInPeriod (length ?in_period),
                       if length ?cohort = 0 then NoClientsSkipPeriod
                       else CRRLine (of_int (int (length ?cohort) - int (length ?churned))
                                       / of_int (int (length ?cohort)))]\<rparr>)"
    unfolding ccr_report_def Let_def cs tx left cn print_def truediv_def
    by (cases "length ?cohort = 0") simp_all
  show ?thesis
    unfolding Let_def
    by (intro conjI len cs tx buy dist left cn) (simp only: run report)
qed

text \<open>
  The month of January 2024 on the concrete world, refreshed from a service that has nothing
  new: three clients at period start, two of them left, one new client, three transactions.
\<close>

theorem command_ccr_cohorts_witness:
  "valid_date (Date 2024 1 1)
   \<and> date_less (Date 2024 1 1) (Date 2024 2 1)
   \<and> date_sub_timedelta (Date 2024 1 1) (date_diff (Date 2024 2 1) (Date 2024 1 1))
       = Inr (Date 2023 12 1)
   \<and> load_frames example_service (Some ''token'') True (DateTime (Date 2023 12 1) 0)
        (Date 2024 2 1) example_world
       = Some (Inr (example_transactions, example_clients),
           example_world
             \<lparr>remote := 2,
              api_calls :=
                [GetTransactions ''token'' (ADatetime (DateTime (Date 2023 12 1) 0))
                   (ADate (Date 2024 2 1)) 1 500,
                 GetClients ''token''],
              stdout := [RetrieveTransactions, RetrieveClients]\<rparr>)
   \<and> date_diff (Date 2024 1 1) (Date 2023 12 1) = date_diff (Date 2024 2 1) (Date 2024 1 1)
   \<and> command_ccr example_service (Some ''token'') True (Date 2024 1 1) (Date 2024 2 1)
        example_world
       = Some (Inr (),
           example_world
             \<lparr>remote := 2,
              api_calls :=
                [GetTransactions ''token'' (ADatetime (DateTime (Date 2023 12 1) 0))
                   (ADate (Date 2024 2 1)) 1 500,
                 GetClients ''token''],
              stdout :=
                [RetrieveTransactions, RetrieveClients,
                 PeriodLine (Date 2024 1 1) (Date 2024 2 1), ClientsAtPeriodStart 3,
                 ClientsLeft 2, ClientsNew 1, TransactionsInPeriod 3, CRRLine (1 / 3)]\<rparr>)
   \<and> CS example_clients (DateTime (Date 2023 12 1) 0) (Date 2024 1 1)
       = [(1, DateTime (Date 2023 12 10) 0), (2, DateTime (Date 2023 12 20) 3600000000),
          (3, DateTime (Date 2023 12 25) 0)]
   \<and> cl_left (CS example_clients (DateTime (Date 2023 12 1) 0) (Date 2024 1 1))
        (clients_with_buy (tx_in_period example_transactions (Date 2024 1 1) (Date 2024 2 1)))
       = [(2, DateTime (Date 2023 12 20) 3600000000), (3, DateTime (Date 2023 12 25) 0)]
   \<and> CN example_clients (Date 2024 1 1) (Date 2024 2 1) = [(4, DateTime (Date 2024 1 5) 0)]"
proof -
  let ?w' = "example_world
             \<lparr>remote := 2,
              api_calls :=
                [GetTransactions ''token'' (ADatetime (DateTime (Date 2023 12 1) 0))
                   (ADate (Date 2024 2 1)) 1 500,
                 GetClients ''token''],
              stdout := [RetrieveTransactions, RetrieveClients]\<rparr>"
  have v: "valid_date (Date 2024 1 1)"
    by (simp add: valid_date_def days_in_month_def mdays_def)
  have l: "date_less (Date 2024 1 1) (Date 2024 2 1)" by (simp add: date_less_def)
  have lb: "date_sub_timedelta (Date 2024 1 1) (date_diff (Date 2024 2 1) (Date 2024 1 1))
              = Inr (Date 2023 12 1)"
    by code_simp
  have pages: "iter_transactions
                 (get_transactions_page example_service ''token''
                    (ADatetime (DateTime (Date 2023 12 1) 0)) (ADate (Date 2024 2 1))) 1 500
                 (print RetrieveTransactions example_world)
               = Some ([], None,
                   example_world
                     \<lparr>remote := 1,
                      api_calls :=
                        [GetTransactions ''token'' (ADatetime (DateTime (Date 2023 12 1) 0))
                           (ADate (Date 2024 2 1)) 1 500],
                      stdout := [RetrieveTransactions]\<rparr>)"
    unfolding iter_transactions_def Let_def
    by (subst iter_transactions_loop.simps, subst iter_transactions_loop.simps)
       (simp add: get_transactions_page_def example_service_def example_world_def print_def)
  have unload: "unload_transactions_for_date_range example_service ''token''
                  (ADatetime (DateTime (Date 2023 12 1) 0)) (ADate (Date 2024 2 1))
                  (print RetrieveTransactions example_world)
               = Some (Inr example_transactions,
                   example_world
                     \<lparr>remote := 1,
                      api_calls :=
                        [GetTransactions ''token'' (ADatetime (DateTime (Date 2023 12 1) 0))
                           (ADate (Date 2024 2 1)) 1 500],
                      stdout := [RetrieveTransactions]\<rparr>)"
    unfolding unload_transactions_for_date_range_def pages
    by (simp add: update_transactions_def df_store_def example_world_def)
  have load: "load_frames example_service (Some ''token'') True (DateTime (Date 2023 12 1) 0)
                (Date 2024 2 1) example_world
              = Some (Inr (example_transactions, example_clients), ?w')"
    by (simp add: load_frames_def unload)
       (simp add: unload_clients_def get_clients_def update_clients_def df_store_def
          example_service_def example_world_def print_def)
  note inst = command_ccr_cohorts[OF v l lb load, unfolded Let_def]
  have len: "date_diff (Date 2024 1 1) (Date 2023 12 1)
               = date_diff (Date 2024 2 1) (Date 2024 1 1)"
    by (rule inst[THEN conjunct1])
  have cs: "CS example_clients (DateTime (Date 2023 12 1) 0) (Date 2024 1 1)
       = [(1, DateTime (Date 2023 12 10) 0), (2, DateTime (Date 2023 12 20) 3600000000),
          (3, DateTime (Date 2023 12 25) 0)]"
    by (simp add: example_eval)
  have left: "cl_left (CS example_clients (DateTime (Date 2023 12 1) 0) (Date 2024 1 1))
        (clients_with_buy (tx_in_period example_transactions (Date 2024 1 1) (Date 2024 2 1)))
       = [(2, DateTime (Date 2023 12 20) 3600000000), (3, DateTime (Date 2023 12 25) 0)]"
    by (simp add: example_eval)
  have cn: "CN example_clients (Date 2024 1 1) (Date 2024 2 1) = [(4, DateTime (Date 2024 1 5) 0)]"
    by (simp add: example_eval)
  have run: "command_ccr example_service (Some ''token'') True (Date 2024 1 1) (Date 2024 2 1)
        example_world
       = Some (Inr (),
           example_world
             \<lparr>remote := 2,
              api_calls :=
                [GetTransactions ''token'' (ADatetime (DateTime (Date 2023 12 1) 0))
                   (ADate (Date 2024 2 1)) 1 500,
                 GetClients ''token''],
              stdout :=
                [RetrieveTransactions, RetrieveClients,
                 PeriodLine (Date 2024 1 1) (Date 2024 2 1), ClientsAtPeriodStart 3,
                 ClientsLeft 2, ClientsNew 1, TransactionsInPeriod 3, CRRLine (1 / 3)]\<rparr>)"
    using inst[THEN conjunct2, THEN conjunct1]
    by (simp add: example_eval)
  show ?thesis by (intro conjI v l lb load len run cs left cn)
qed

text \<open>
  With \<open>start = 0001-01-01\<close> and \<open>end = 0001-02-01\<close> the look-back start would lie 31 days
  before the first date there is: the subtraction raises \<open>OverflowError\<close> before anything is
  loaded or printed, and no cohort is formed.
\<close>

theorem command_ccr_lookback_overflow:
  "valid_date (Date 1 1 1) \<and> valid_date (Date 1 2 1)
   \<and> date_less (Date 1 1 1) (Date 1 2 1)
   \<and> command_ccr example_service None False (Date 1 1 1) (Date 1 2 1) example_world
       = Some (Inl OverflowError, example_world)"
proof -
  have v: "valid_date (Date 1 1 1)" "valid_date (Date 1 2 1)"
    by (simp_all add: valid_date_def days_in_month_def mdays_def isleap_def)
  have l: "date_less (Date 1 1 1) (Date 1 2 1)" by (simp add: date_less_def)
  have "date_sub_timedelta (Date 1 1 1) (date_diff (Date 1 2 1) (Date 1 1 1))
          = Inl OverflowError"
    by code_simp
  with l have "command_ccr example_service None False (Date 1 1 1) (Date 1 2 1) example_world
       = Some (Inl OverflowError, example_world)"
    by (simp add: command_ccr_def)
  with v l show ?thesis by simp
qed

section \<open>Properties of the monthly stepper\<close>

lemma days_in_month_bounds:
  assumes "1 \<le> m" "m \<le> 12"
  shows "28 \<le> days_in_month y m \<and> days_in_month y m \<le> 31"
  using month_cases[OF assms] by (auto simp: days_in_month_def mdays_def)

lemma monthrange_ndays_valid:
  "1 \<le> m \<Longrightarrow> m \<le> 12 \<Longrightarrow> monthrange_ndays y m = Inr (days_in_month y m)"
  by (simp add: monthrange_ndays_def days_in_month_def)

lemma days_later_in_month:
  "day d + int k \<le> days_in_month (year d) (month d)
     \<Longrightarrow> days_later k d = Date (year d) (month d) (day d + int k)"
proof (induction k arbitrary: d)
  case 0
  then show ?case by simp
next
  case (Suc k)
  then have "day d < days_in_month (year d) (month d)" by simp
  then have nd: "next_day d = Date (year d) (month d) (day d + 1)"
    by (simp add: next_day_def)
  have "days_later k (next_day d) = Date (year d) (month d) (day d + 1 + int k)"
    using Suc.prems Suc.IH[of "next_day d"] by (simp add: nd)
  then show ?case by (simp add: add.assoc)
qed

lemma days_later_month:
  assumes "1 \<le> m" "m \<le> 12"
  shows "days_later (nat (days_in_month y m)) (Date y m 1) = first_of_next_month (Date y m 1)"
proof -
  let ?n = "days_in_month y m"
  from days_in_month_bounds[OF assms, of y] have n: "28 \<le> ?n" by simp
  then have split: "nat ?n = Suc (nat (?n - 1))" by simp
  have "days_later (nat (?n - 1)) (Date y m 1) = Date y m (1 + int (nat (?n - 1)))"
    using n days_later_in_month[of "Date y m 1" "nat (?n - 1)"] by simp
  then have last: "days_later (nat (?n - 1)) (Date y m 1) = Date y m ?n"
    using n by simp
  have comm: "days_later (Suc k) d = next_day (days_later k d)" for k d
    by (induction k arbitrary: d) simp_all
  have "days_later (nat ?n) (Date y m 1) = next_day (Date y m ?n)"
    by (simp only: split comm last)
  also have "\<dots> = first_of_next_month (Date y m 1)"
    using assms by (simp add: next_day_def first_of_next_month_def)
  finally show ?thesis .
qed

lemma date_add_month:
  assumes "1 \<le> m" "m \<le> 12" "1 \<le> y"
  shows "date_add (Date y m 1) (days_in_month y m) =
           (if y = 9999 \<and> m = 12 \<or> 9999 < y then Inl OverflowError
            else Inr (first_of_next_month (Date y m 1)))"
proof -
  from days_in_month_bounds[OF assms(1,2), of y] have "0 \<le> days_in_month y m" by simp
  then show ?thesis
    using assms by (auto simp: date_add_def days_later_month Let_def first_of_next_month_def)
qed


lemma date_less_first_of_month:
  assumes "day s = 1" "1 \<le> month s" "month s \<le> 12" "1 \<le> month e" "month e \<le> 12" "1 \<le> day e"
  shows "date_less s e \<longleftrightarrow> 0 < months_to_plan s e"
  using assms by (auto simp: date_less_def months_to_plan_def)

lemma step_monthly_loop_plan:
  assumes "day s = 1" "1 \<le> month s" "month s \<le> 12" "1 \<le> year s"
    and "1 \<le> month e" "month e \<le> 12" "1 \<le> day e" "year e \<le> 9999"
    and "\<not> (year e = 9999 \<and> month e = 12 \<and> 1 < day e)"
    and "months_to_plan s e = k"
  shows "step_monthly_loop ccr s e w = run_periods ccr (month_periods k s) w"
  using assms
proof (induction k arbitrary: s w)
  case 0
  then have "\<not> date_less s e" by (simp add: date_less_first_of_month)
  then show ?case by (subst step_monthly_loop.simps) simp
next
  case (Suc k)
  obtain y m where s: "s = Date y m 1" using Suc.prems(1) by (cases s) simp
  have less: "date_less s e" using Suc.prems by (simp add: date_less_first_of_month)
  have m: "1 \<le> m" "m \<le> 12" "1 \<le> y" using Suc.prems s by simp_all
  have no_overflow: "\<not> (y = 9999 \<and> m = 12 \<or> 9999 < y)"
    using less Suc.prems(5-9) s by (auto simp: date_less_def)
  let ?s' = "first_of_next_month s"
  have add: "date_add s (days_in_month y m) = Inr ?s'"
    using date_add_month[OF m] no_overflow s by simp
  have s': "day ?s' = 1" "1 \<le> month ?s'" "month ?s' \<le> 12" "1 \<le> year ?s'"
    using m s by (auto simp: first_of_next_month_def)
  have plan: "months_to_plan ?s' e = k"
    using Suc.prems(10) m s by (auto simp: months_to_plan_def first_of_next_month_def split: if_splits)
  have IH: "step_monthly_loop ccr ?s' e w' = run_periods ccr (month_periods k ?s') w'" for w'
    by (rule Suc.IH[OF s' Suc.prems(5-9) plan])
  show ?case
    by (subst step_monthly_loop.simps)
       (simp add: less[unfolded s] s monthrange_ndays_valid[OF m(1,2)] add[unfolded s] IH[unfolded s] cong: sum.case_cong)
qed


lemma month_periods_bounds:
  assumes "day s = 1" "1 \<le> month s" "month s \<le> 12"
    and "1 \<le> month e" "month e \<le> 12" "1 \<le> day e"
    and "months_to_plan s e = k"
  shows "list_all (\<lambda>p. date_less (fst p) e) (month_periods k s)
         \<and> (0 < k \<longrightarrow> \<not> date_less (snd (last (month_periods k s))) e)"
  using assms
proof (induction k arbitrary: s)
  case 0
  then show ?case by simp
next
  case (Suc k)
  let ?s' = "first_of_next_month s"
  have less: "date_less s e" using Suc.prems by (simp add: date_less_first_of_month)
  have s': "day ?s' = 1" "1 \<le> month ?s'" "month ?s' \<le> 12"
    using Suc.prems by (auto simp: first_of_next_month_def)
  have plan: "months_to_plan ?s' e = k"
    using Suc.prems by (auto simp: months_to_plan_def first_of_next_month_def split: if_splits)
  note IH = Suc.IH[OF s' Suc.prems(4-6) plan]
  show ?case
  proof (cases k)
    case 0
    then have "\<not> date_less ?s' e"
      using plan date_less_first_of_month[OF s' Suc.prems(4-6)] by simp
    with 0 less show ?thesis by simp
  next
    case (Suc j)
    then have "month_periods k ?s' \<noteq> []" by simp
    with IH less Suc show ?thesis by simp
  qed
qed

text \<open>
  C8, as amended. For valid dates \<open>start < end\<close> with \<open>end\<close> no later than 9999-12-01, the
  stepper normalises \<open>start\<close> to the first day of its month and runs the per-period
  computation on successive periods, each from the first day of a month to the first day of
  the next month, in order, until one of the computations raises: at least one period, every
  period start before \<open>end\<close>, and the last period's end not before \<open>end\<close> (it is not
  clipped).
\<close>

theorem command_ccr_step_monthly_plan:
  assumes "valid_date start_period" "valid_date end_period"
    and "date_less start_period end_period"
    and "\<not> (year end_period = 9999 \<and> month end_period = 12 \<and> 1 < day end_period)"
  shows "command_ccr_step_monthly api api_key unload_data start_period end_period w
           = run_periods (command_ccr api api_key unload_data)
               (month_periods (months_to_plan start_period end_period)
                  (replace_day_1 start_period)) w
    \<and> 0 < months_to_plan start_period end_period
    \<and> list_all (\<lambda>p. date_less (fst p) end_period)
         (month_periods (months_to_plan start_period end_period) (replace_day_1 start_period))
    \<and> \<not> date_less
         (snd (last (month_periods (months_to_plan start_period end_period)
                       (replace_day_1 start_period)))) end_period"
proof -
  let ?s = "replace_day_1 start_period"
  have s: "day ?s = 1" "1 \<le> month ?s" "month ?s \<le> 12" "1 \<le> year ?s"
    using assms(1) by (simp_all add: replace_day_1_def valid_date_def)
  have e: "1 \<le> month end_period" "month end_period \<le> 12" "1 \<le> day end_period"
    "year end_period \<le> 9999"
    using assms(2) by (simp_all add: valid_date_def)
  have k: "months_to_plan ?s end_period = months_to_plan start_period end_period"
    by (simp add: months_to_plan_def replace_day_1_def)
  have "date_less ?s end_period"
    using assms(1,3) by (auto simp: date_less_def replace_day_1_def valid_date_def)
  then have pos: "0 < months_to_plan start_period end_period"
    using date_less_first_of_month[OF s(1-3) e(1-3)] k by simp
  have run: "command_ccr_step_monthly api api_key unload_data start_period end_period w
           = run_periods (command_ccr api api_key unload_data)
               (month_periods (months_to_plan start_period end_period) ?s) w"
    unfolding command_ccr_step_monthly_def
    by (rule step_monthly_loop_plan[OF s e assms(4) k])
  from month_periods_bounds[OF s(1-3) e(1-3) k] pos run show ?thesis by simp
qed

theorem command_ccr_step_monthly_plan_witness:
  "valid_date (Date 2024 1 15) \<and> valid_date (Date 2024 3 1)
   \<and> date_less (Date 2024 1 15) (Date 2024 3 1)
   \<and> command_ccr_step_monthly example_service None False (Date 2024 1 15) (Date 2024 3 1)
        example_world
      = run_periods (command_ccr example_service None False)
          [(Date 2024 1 1, Date 2024 2 1), (Date 2024 2 1, Date 2024 3 1)] example_world"
proof -
  have v: "valid_date (Date 2024 1 15)" "valid_date (Date 2024 3 1)"
    by (simp_all add: valid_date_def days_in_month_def mdays_def isleap_def)
  have l: "date_less (Date 2024 1 15) (Date 2024 3 1)" by (simp add: date_less_def)
  have plan: "month_periods (months_to_plan (Date 2024 1 15) (Date 2024 3 1))
                (replace_day_1 (Date 2024 1 15))
              = [(Date 2024 1 1, Date 2024 2 1), (Date 2024 2 1, Date 2024 3 1)]"
    by (simp add: months_to_plan_def replace_day_1_def first_of_next_month_def numeral_2_eq_2)
  show ?thesis
    using command_ccr_step_monthly_plan[OF v l, of example_service None False example_world]
    by (simp add: plan v l)
qed

text \<open>
  With \<open>start = 9999-12-15\<close> and \<open>end = 9999-12-31\<close> the end of the only period would be
  10000-01-01: adding the month's 31 days raises \<open>OverflowError\<close> before any period is run.
\<close>

theorem command_ccr_step_monthly_overflow:
  "valid_date (Date 9999 12 15) \<and> valid_date (Date 9999 12 31)
   \<and> date_less (Date 9999 12 15) (Date 9999 12 31)
   \<and> command_ccr_step_monthly example_service None False (Date 9999 12 15) (Date 9999 12 31)
        example_world
      = Some (Inl OverflowError, example_world)"
proof -
  have dim: "days_in_month 9999 12 = 31" by (simp add: days_in_month_def mdays_def)
  have "date_add (Date 9999 12 1) 31 = Inl OverflowError"
    using date_add_month[of 12 9999] by (simp add: dim)
  then show ?thesis
    unfolding command_ccr_step_monthly_def
    by (subst step_monthly_loop.simps)
       (simp add: valid_date_def dim date_less_def replace_day_1_def monthrange_ndays_valid)
qed

end
